theory Spec2Isabelle
  imports Complex_Main
begin

section \<open>Data model\<close>

text \<open>
  JavaScript numbers are modelled exactly: byte sizes are naturals (a GPUSize64), workgroup
  lengths and the loop counter of \<open>blockScans\<close> are integers, and the element count
  \<open>size / 4\<close> is a rational (a size that is no multiple of 4 gives a fraction, as
  the division of the source does). Doubles are exact on all these values below \<open>2^53\<close>.
\<close>

text \<open>
  Modelled from the spec: ScanTemplate.ts is not among the sources. The spec's data model
  gives a template an element size, an identity value and a combine operation.
\<close>

datatype 'a ScanTemplate =
  ScanTemplate (elementSize: nat) (identityValue: 'a) (combine: "'a \<Rightarrow> 'a \<Rightarrow> 'a")

text \<open>
  The labels are the template strings of the source:
  \<open>`${label} sourceScan`\<close>, \<open>`${label} blockToBlock ${labelNum}`\<close> and
  \<open>`${label} applyBlock ${i}`\<close>, kept as their parts.
\<close>

datatype StageLabel =
  SourceScanLabel string
  | BlockToBlockLabel string nat
  | ApplyBlockLabel string nat

text \<open>
  A stage object is the arguments it was constructed with; a buffer is known by the getter
  that creates it (\<open>prefixScan\<close> and \<open>blockSums\<close> of a WorkgroupScan, \<open>result\<close> of an
  ApplyScanBlocks) or, for the source, by its byte size. A device is known by its limit
  \<open>maxComputeInvocationsPerWorkgroup\<close>. \<open>UndefinedBuffer\<close> is JavaScript's
  \<open>undefined\<close>, what an array read out of range gives. An argument the source does not
  pass is \<open>None\<close>. The pipeline cache is an opaque service and is left out.
\<close>

datatype 'a WorkgroupScan =
  WorkgroupScan
    (ws_device: int)
    (ws_source: "'a GPUBuffer")
    (ws_emitBlockSums: bool)
    (ws_exclusiveSmall: "bool option")
    (ws_initialValue: "'a option")
    (ws_template: "'a ScanTemplate")
    (ws_workgroupLength: "int option")
    (ws_label: StageLabel)
and 'a GPUBuffer =
  SrcBuffer nat
  | PrefixScanOf "'a WorkgroupScan"
  | BlockSumsOf "'a WorkgroupScan"
  | ResultOf "'a ApplyScanBlocks"
  | UndefinedBuffer
and 'a ApplyScanBlocks =
  ApplyScanBlocks
    (ab_device: int)
    (ab_partialScan: "'a GPUBuffer")
    (ab_blockSums: "'a GPUBuffer")
    (ab_template: "'a ScanTemplate")
    (ab_exclusiveLarge: bool)
    (ab_initialValue: "'a option")
    (ab_workgroupLength: "int option")
    (ab_label: StageLabel)

datatype 'a ComposableShader =
  Scan "'a WorkgroupScan"
  | Apply "'a ApplyScanBlocks"

text \<open>The reactive fields of a PrefixScan, after \<open>assignParams\<close> has filled the defaults.\<close>

record 'a PrefixScan =
  template :: "'a ScanTemplate"
  src :: nat
  workgroupLength :: "int option"
  label :: string
  initialValue :: "'a option"
  exclusive :: bool
  device :: int

datatype error = TypeError

section \<open>ApplyScanBlocks\<close>

definition ApplyScanBlocks_actualWorkgroupLength :: "'a ApplyScanBlocks \<Rightarrow> int" where
  "ApplyScanBlocks_actualWorkgroupLength this =
     (let maxThreads = ab_device this
      in case ab_workgroupLength this of
           None \<Rightarrow> maxThreads
         | Some proposedLength \<Rightarrow>
             if proposedLength = 0 \<or> proposedLength > maxThreads then maxThreads
             else proposedLength)"

section \<open>PrefixScan\<close>

text \<open>
  Modelled from the spec: \<open>limitWorkgroupLength\<close> is imported from the thimbleberry
  package and is not among the sources. The spec: the actual length is the requested one,
  and the device maximum when none is requested or when it is larger than the device
  maximum.
\<close>

definition limitWorkgroupLength :: "int \<Rightarrow> int option \<Rightarrow> int" where
  "limitWorkgroupLength maxThreads proposedLength =
     (case proposedLength of
        None \<Rightarrow> maxThreads
      | Some l \<Rightarrow> if l > maxThreads then maxThreads else l)"

definition BYTES_PER_ELEMENT :: rat where
  "BYTES_PER_ELEMENT = 4"

definition sourceSize :: "'a PrefixScan \<Rightarrow> nat" where
  "sourceSize this = src this"

definition actualWorkgroupLength :: "'a PrefixScan \<Rightarrow> int" where
  "actualWorkgroupLength this = limitWorkgroupLength (device this) (workgroupLength this)"

definition fitsInWorkGroup :: "'a PrefixScan \<Rightarrow> bool" where
  "fitsInWorkGroup this =
     (let sourceElems = of_nat (sourceSize this) / BYTES_PER_ELEMENT
      in sourceElems \<le> of_int (actualWorkgroupLength this))"

definition sourceScan :: "'a PrefixScan \<Rightarrow> 'a WorkgroupScan" where
  "sourceScan this =
     (let exclusiveSmall = exclusive this \<and> fitsInWorkGroup this
      in WorkgroupScan (device this) (SrcBuffer (src this)) True (Some exclusiveSmall)
           (initialValue this) (template this) (workgroupLength this)
           (SourceScanLabel (label this)))"

text \<open>
  The \<open>for\<close> loop of \<open>blockScans\<close>. It need not end (a workgroup length of 1 never
  reaches the element count), so it is a partial function: \<open>None\<close> is a loop that runs
  forever.
\<close>

partial_function (option) blockScansLoop ::
  "'a PrefixScan \<Rightarrow> rat \<Rightarrow> int \<Rightarrow> int \<Rightarrow> 'a GPUBuffer \<Rightarrow> nat \<Rightarrow> 'a WorkgroupScan list
     \<Rightarrow> 'a WorkgroupScan list option" where
  "blockScansLoop this sourceElements wl elements source labelNum shaders =
     (if of_int elements < sourceElements then
        (let last = (of_int (elements * wl) \<ge> sourceElements);
             blockScan = WorkgroupScan (device this) source (\<not> last) None None
                           (template this) (workgroupLength this)
                           (BlockToBlockLabel (label this) labelNum)
         in blockScansLoop this sourceElements wl (elements * wl) (BlockSumsOf blockScan)
              (labelNum + 1) (shaders @ [blockScan]))
      else Some shaders)"

declare blockScansLoop.simps [code]

text \<open>
  The stages that the first \<open>k\<close> iterations of the loop push, from the loop state
  \<open>(elements, source, labelNum)\<close>.
\<close>

fun blockScanChain ::
  "'a PrefixScan \<Rightarrow> rat \<Rightarrow> int \<Rightarrow> int \<Rightarrow> 'a GPUBuffer \<Rightarrow> nat \<Rightarrow> nat
     \<Rightarrow> 'a WorkgroupScan list" where
  "blockScanChain this sourceElements wl elements source labelNum 0 = []"
| "blockScanChain this sourceElements wl elements source labelNum (Suc k) =
     (let last = (of_int (elements * wl) \<ge> sourceElements);
          blockScan = WorkgroupScan (device this) source (\<not> last) None None
                        (template this) (workgroupLength this)
                        (BlockToBlockLabel (label this) labelNum)
      in blockScan # blockScanChain this sourceElements wl (elements * wl)
                       (BlockSumsOf blockScan) (labelNum + 1) k)"

definition blockScans :: "'a PrefixScan \<Rightarrow> 'a WorkgroupScan list option" where
  "blockScans this =
     (let sourceElements = of_nat (sourceSize this) / BYTES_PER_ELEMENT;
          wl = actualWorkgroupLength this
      in blockScansLoop this sourceElements wl wl (BlockSumsOf (sourceScan this)) 0 [])"

text \<open>An array read: \<open>undefined\<close> out of range.\<close>

definition arrayGet :: "'a GPUBuffer list \<Rightarrow> nat \<Rightarrow> 'a GPUBuffer" where
  "arrayGet xs i = (if i < length xs then xs ! i else UndefinedBuffer)"

text \<open>
  The \<open>map\<close> callback of \<open>applyScans\<close>, which reads and assigns the variable
  \<open>blockSums\<close> of the enclosing function: the variable is threaded through.
\<close>

fun applyBlocksMap ::
  "'a PrefixScan \<Rightarrow> 'a GPUBuffer list \<Rightarrow> 'a GPUBuffer \<Rightarrow> nat \<Rightarrow> 'a WorkgroupScan list
     \<Rightarrow> 'a ApplyScanBlocks list" where
  "applyBlocksMap this targetPrefixes blockSums i [] = []"
| "applyBlocksMap this targetPrefixes blockSums i (s # rest) =
     (let applyBlocks = ApplyScanBlocks (device this) (arrayGet targetPrefixes i) blockSums
                          (template this) (exclusive this) (initialValue this)
                          (Some (actualWorkgroupLength this))
                          (ApplyBlockLabel (label this) i)
      in applyBlocks # applyBlocksMap this targetPrefixes (ResultOf applyBlocks) (i + 1) rest)"

text \<open>
  \<open>xs.slice(-1)[0].field\<close> throws a TypeError on an empty array; \<open>None\<close> is a
  \<open>blockScans\<close> that never returns.
\<close>

definition applyScans :: "'a PrefixScan \<Rightarrow> (error + 'a ApplyScanBlocks list) option" where
  "applyScans this =
     (if fitsInWorkGroup this then Some (Inr [])
      else
        (case blockScans this of
           None \<Rightarrow> None
         | Some bs \<Rightarrow>
             (let blockShadersReverse = rev bs;
                  blockPrefixesReverse = map PrefixScanOf blockShadersReverse;
                  targetPrefixes = drop 1 blockPrefixesReverse @ [PrefixScanOf (sourceScan this)]
              in if bs = [] then Some (Inl TypeError)
                 else Some (Inr (applyBlocksMap this targetPrefixes (PrefixScanOf (last bs)) 0
                                   blockShadersReverse)))))"

definition result :: "'a PrefixScan \<Rightarrow> (error + 'a GPUBuffer) option" where
  "result this =
     (if fitsInWorkGroup this then Some (Inr (PrefixScanOf (sourceScan this)))
      else
        (case applyScans this of
           None \<Rightarrow> None
         | Some (Inl e) \<Rightarrow> Some (Inl e)
         | Some (Inr as) \<Rightarrow>
             if as = [] then Some (Inl TypeError) else Some (Inr (ResultOf (last as)))))"

definition shaders :: "'a PrefixScan \<Rightarrow> (error + 'a ComposableShader list) option" where
  "shaders this =
     (case blockScans this of
        None \<Rightarrow> None
      | Some bs \<Rightarrow>
          (case applyScans this of
             None \<Rightarrow> None
           | Some (Inl e) \<Rightarrow> Some (Inl e)
           | Some (Inr as) \<Rightarrow> Some (Inr (Scan (sourceScan this) # map Scan bs @ map Apply as))))"

text \<open>
  A command encoder is the list of the compute passes encoded so far; the \<open>commands\<close>
  method of a stage encodes one pass, known by the stage it belongs to.
\<close>

definition commands ::
  "'a PrefixScan \<Rightarrow> 'a ComposableShader list \<Rightarrow> (error + 'a ComposableShader list) option" where
  "commands this commandEncoder =
     (case shaders this of
        None \<Rightarrow> None
      | Some (Inl e) \<Rightarrow> Some (Inl e)
      | Some (Inr ss) \<Rightarrow> Some (Inr (foldl (\<lambda>enc s. enc @ [s]) commandEncoder ss)))"

section \<open>Example configurations\<close>

text \<open>Four u32 elements with a workgroup length of 4: the source fits in one workgroup.\<close>

definition cfgSmall :: "int PrefixScan" where
  "cfgSmall = \<lparr>template = ScanTemplate 4 0 (+), src = 16, workgroupLength = Some 4,
      label = ''s'', initialValue = None, exclusive = True, device = 256\<rparr>"

text \<open>Eight elements of 8 bytes each with a workgroup length of 8.\<close>

definition cfgWide :: "int PrefixScan" where
  "cfgWide = \<lparr>template = ScanTemplate 8 0 (+), src = 64, workgroupLength = Some 8,
      label = ''w'', initialValue = None, exclusive = False, device = 256\<rparr>"

text \<open>
  Eight u32 elements with a workgroup length of 2 (8 is the cube of 2), exclusive, with an
  initial value.
\<close>

definition cfgCube :: "int PrefixScan" where
  "cfgCube = \<lparr>template = ScanTemplate 4 0 (+), src = 32, workgroupLength = Some 2,
      label = ''c'', initialValue = Some 100, exclusive = True, device = 256\<rparr>"

text \<open>The stages of \<open>cfgCube\<close>.\<close>

definition cubeSource :: "int WorkgroupScan" where
  "cubeSource = WorkgroupScan 256 (SrcBuffer 32) True (Some False) (Some 100)
     (ScanTemplate 4 0 (+)) (Some 2) (SourceScanLabel ''c'')"

definition cubeScan0 :: "int WorkgroupScan" where
  "cubeScan0 = WorkgroupScan 256 (BlockSumsOf cubeSource) True None None
     (ScanTemplate 4 0 (+)) (Some 2) (BlockToBlockLabel ''c'' 0)"

definition cubeScan1 :: "int WorkgroupScan" where
  "cubeScan1 = WorkgroupScan 256 (BlockSumsOf cubeScan0) False None None
     (ScanTemplate 4 0 (+)) (Some 2) (BlockToBlockLabel ''c'' 1)"

definition cubeApply0 :: "int ApplyScanBlocks" where
  "cubeApply0 = ApplyScanBlocks 256 (PrefixScanOf cubeScan0) (PrefixScanOf cubeScan1)
     (ScanTemplate 4 0 (+)) True (Some 100) (Some 2) (ApplyBlockLabel ''c'' 0)"

definition cubeApply1 :: "int ApplyScanBlocks" where
  "cubeApply1 = ApplyScanBlocks 256 (PrefixScanOf cubeSource) (ResultOf cubeApply0)
     (ScanTemplate 4 0 (+)) True (Some 100) (Some 2) (ApplyBlockLabel ''c'' 1)"

text \<open>Two u32 elements with a workgroup length of 1: the source does not fit.\<close>

definition cfgOne :: "int PrefixScan" where
  "cfgOne = \<lparr>template = ScanTemplate 4 0 (+), src = 8, workgroupLength = Some 1,
      label = ''o'', initialValue = None, exclusive = False, device = 256\<rparr>"


section \<open>Notions the claims are stated with\<close>

text \<open>The arguments a Block Scan stage was constructed with, its source apart.\<close>

definition ownArgs ::
  "'a WorkgroupScan \<Rightarrow>
     int \<times> bool \<times> bool option \<times> 'a option \<times> 'a ScanTemplate \<times> int option \<times> StageLabel" where
  "ownArgs s = (ws_device s, ws_emitBlockSums s, ws_exclusiveSmall s, ws_initialValue s,
                ws_template s, ws_workgroupLength s, ws_label s)"

text \<open>
  The buffers a stage reads: a WorkgroupScan its \<open>source\<close>, an ApplyScanBlocks its
  \<open>partialScan\<close> and \<open>blockSums\<close> (bindings 2 and 3 of its bind group).
\<close>

definition inputs :: "'a ComposableShader \<Rightarrow> 'a GPUBuffer list" where
  "inputs s = (case s of
                 Scan w \<Rightarrow> [ws_source w]
               | Apply a \<Rightarrow> [ab_partialScan a, ab_blockSums a])"

text \<open>
  A buffer is available once the stage that produces it has been encoded; the block sums of a
  stage only if the stage emits them; the source buffer always; \<open>undefined\<close> never.
\<close>

definition available :: "'a ComposableShader list \<Rightarrow> 'a GPUBuffer \<Rightarrow> bool" where
  "available encoded b =
     (case b of
        SrcBuffer n \<Rightarrow> True
      | PrefixScanOf w \<Rightarrow> Scan w \<in> set encoded
      | BlockSumsOf w \<Rightarrow> Scan w \<in> set encoded \<and> ws_emitBlockSums w
      | ResultOf a \<Rightarrow> Apply a \<in> set encoded
      | UndefinedBuffer \<Rightarrow> False)"

text \<open>
  A list of stages is in dependency order after \<open>encoded\<close> if every stage reads only
  buffers that are available when its turn comes.
\<close>

fun encodedInOrder :: "'a ComposableShader list \<Rightarrow> 'a ComposableShader list \<Rightarrow> bool" where
  "encodedInOrder encoded [] = True"
| "encodedInOrder encoded (s # ss) =
     (list_all (available encoded) (inputs s) \<and> encodedInOrder (encoded @ [s]) ss)"

section \<open>What the stages compute\<close>

text \<open>
  Modelled from the spec: WorkgroupScan.ts, the compute kernels of both stages and the
  readback are not among the sources. The spec's Block Scan Stage partitions its source into
  contiguous blocks of the block length and scans each block on its own; inclusive:
  \<open>output[0] = input[0]\<close> and \<open>output[i] = combine(output[i-1], input[i])\<close>.
  \<open>scanFrom\<close> carries a scan on from the output before, \<open>acc\<close>.
\<close>

fun scanFrom :: "('a \<Rightarrow> 'a \<Rightarrow> 'a) \<Rightarrow> 'a \<Rightarrow> 'a list \<Rightarrow> 'a list" where
  "scanFrom f acc [] = []"
| "scanFrom f acc (x # xs) = f acc x # scanFrom f (f acc x) xs"

text \<open>
  Modelled from the spec: the inclusive scan of a sequence, which is also the reference
  sequential scan when it runs over the whole input.
\<close>

definition inclusiveScan :: "('a \<Rightarrow> 'a \<Rightarrow> 'a) \<Rightarrow> 'a list \<Rightarrow> 'a list" where
  "inclusiveScan f xs = (case xs of [] \<Rightarrow> [] | x # rest \<Rightarrow> x # scanFrom f x rest)"

text \<open>
  Modelled from the spec: the exclusive scan, \<open>output[i]\<close> the combine of
  \<open>input[0..i-1]\<close> and \<open>output[0]\<close> the seed.
\<close>

definition exclusiveScan :: "('a \<Rightarrow> 'a \<Rightarrow> 'a) \<Rightarrow> 'a \<Rightarrow> 'a list \<Rightarrow> 'a list" where
  "exclusiveScan f seed xs = take (length xs) (seed # scanFrom f seed xs)"

text \<open>
  Modelled from the spec: the summary of a block, the inclusive combine of all its elements.
\<close>

definition blockTotal :: "('a \<Rightarrow> 'a \<Rightarrow> 'a) \<Rightarrow> 'a \<Rightarrow> 'a list \<Rightarrow> 'a" where
  "blockTotal f d blk = (case blk of [] \<Rightarrow> d | x # rest \<Rightarrow> foldl f x rest)"

text \<open>
  Modelled from the spec: the \<open>ceil(N / L)\<close> contiguous blocks of a sequence, the last one
  partially filled; no stage runs with a block length of 0.
\<close>

fun blocks :: "nat \<Rightarrow> 'a list \<Rightarrow> 'a list list" where
  "blocks L xs = (if L = 0 \<or> xs = [] then [] else take L xs # blocks L (drop L xs))"

declare blocks.simps [simp del]

text \<open>
  Modelled from the spec: the scan of one block. An exclusive scan is seeded with the initial
  value, or with the identity when there is none; an inclusive scan is seeded with the
  initial value only if one is supplied and the block is the unique block of its level.
\<close>

definition scanBlock ::
  "'a ScanTemplate \<Rightarrow> bool \<Rightarrow> 'a option \<Rightarrow> bool \<Rightarrow> 'a list \<Rightarrow> 'a list" where
  "scanBlock t exclusiveAtThisLevel initial uniqueBlock blk =
     (if exclusiveAtThisLevel then
        exclusiveScan (combine t) (case initial of None \<Rightarrow> identityValue t | Some v \<Rightarrow> v) blk
      else
        (case initial of
           Some v \<Rightarrow> if uniqueBlock then scanFrom (combine t) v blk
                     else inclusiveScan (combine t) blk
         | None \<Rightarrow> inclusiveScan (combine t) blk))"

text \<open>
  Modelled from the spec: the \<open>prefixScan\<close> output of a Block Scan Stage, the scans of its
  blocks one after the other.
\<close>

definition blockScanStage ::
  "'a ScanTemplate \<Rightarrow> nat \<Rightarrow> bool \<Rightarrow> 'a option \<Rightarrow> 'a list \<Rightarrow> 'a list" where
  "blockScanStage t L exclusiveAtThisLevel initial xs =
     concat (map (scanBlock t exclusiveAtThisLevel initial (length (blocks L xs) = 1))
               (blocks L xs))"

text \<open>
  Modelled from the spec: the \<open>blockSums\<close> output, one summary for each block.
\<close>

definition blockSumsStage :: "'a ScanTemplate \<Rightarrow> nat \<Rightarrow> 'a list \<Rightarrow> 'a list" where
  "blockSumsStage t L xs = map (blockTotal (combine t) (identityValue t)) (blocks L xs)"

text \<open>
  Modelled from the spec: a read of a buffer, which beyond the end of the buffer yields the
  padding value, the template's identity.
\<close>

definition readAt :: "'a \<Rightarrow> 'a list \<Rightarrow> nat \<Rightarrow> 'a" where
  "readAt d xs i = (if i < length xs then xs ! i else d)"



text \<open>
  Modelled from the spec: the Apply-Block Stage as it runs on the buffers it is bound to. The
  \<open>blockSums\<close> buffer holds a higher level's inclusive scan, so the stage reads, for block
  \<open>j\<close>, the entry of the block before, and leaves block 0, which has nothing before it,
  as it is.
\<close>

definition applyBlockStagePrevious ::
  "'a ScanTemplate \<Rightarrow> nat \<Rightarrow> 'a list \<Rightarrow> 'a list \<Rightarrow> 'a list" where
  "applyBlockStagePrevious t L blockSums partialScan =
     map (\<lambda>i. if i div L = 0 then partialScan ! i
              else combine t (readAt (identityValue t) blockSums (i div L - 1)) (partialScan ! i))
       [0..<length partialScan]"

text \<open>
  Modelled from the spec: the contents of a buffer once the whole graph has run on a source
  holding \<open>input\<close>. A WorkgroupScan clamps its requested length as
  \<open>limitWorkgroupLength\<close> does, is inclusive when it is passed no exclusive flag, and
  produces block sums only when it emits them; an ApplyScanBlocks runs with its
  \<open>actualWorkgroupLength\<close> and does not read its exclusive flag or its initial value
  (ApplyScanBlocks.ts binds neither to its pipeline).
\<close>

fun contents :: "'a list \<Rightarrow> 'a GPUBuffer \<Rightarrow> 'a list"
  and prefixScanContents :: "'a list \<Rightarrow> 'a WorkgroupScan \<Rightarrow> 'a list"
  and blockSumsContents :: "'a list \<Rightarrow> 'a WorkgroupScan \<Rightarrow> 'a list"
  and resultContents :: "'a list \<Rightarrow> 'a ApplyScanBlocks \<Rightarrow> 'a list"
where
  "contents input (SrcBuffer n) = input"
| "contents input (PrefixScanOf w) = prefixScanContents input w"
| "contents input (BlockSumsOf w) = blockSumsContents input w"
| "contents input (ResultOf a) = resultContents input a"
| "contents input UndefinedBuffer = []"
| "prefixScanContents input (WorkgroupScan d source emit excl initial t wl lbl) =
     blockScanStage t (nat (limitWorkgroupLength d wl)) (excl = Some True) initial
       (contents input source)"
| "blockSumsContents input (WorkgroupScan d source emit excl initial t wl lbl) =
     (if emit then blockSumsStage t (nat (limitWorkgroupLength d wl)) (contents input source)
      else [])"
| "resultContents input (ApplyScanBlocks d partialScan blockSums t excl initial wl lbl) =
     applyBlockStagePrevious t
       (nat (ApplyScanBlocks_actualWorkgroupLength
               (ApplyScanBlocks d partialScan blockSums t excl initial wl lbl)))
       (contents input blockSums) (contents input partialScan)"


text \<open>
  \<open>PrefixScan.scan\<close>: encode the stages, submit them and read the \<open>result\<close> buffer
  back. The stages run in the order they are encoded in, which is a dependency order, so the
  buffer read back holds the \<open>contents\<close> above.
\<close>

definition scan :: "'a PrefixScan \<Rightarrow> 'a list \<Rightarrow> (error + 'a list) option" where
  "scan this input =
     (case commands this [] of
        None \<Rightarrow> None
      | Some (Inl e) \<Rightarrow> Some (Inl e)
      | Some (Inr encoded) \<Rightarrow>
          (case result this of
             None \<Rightarrow> None
           | Some (Inl e) \<Rightarrow> Some (Inl e)
           | Some (Inr buffer) \<Rightarrow> Some (Inr (contents input buffer))))"

section \<open>Whether the source fits in one workgroup\<close>

lemmas cfg_simps = sourceSize_def BYTES_PER_ELEMENT_def actualWorkgroupLength_def
  limitWorkgroupLength_def fitsInWorkGroup_def

text \<open>
  Claim C7, as amended. \<open>fitsInWorkGroup\<close> is true if and only if the source buffer's byte
  size divided by 4 (the size of a u32, whatever the template's element size is) is at most
  \<open>actualWorkgroupLength\<close>, which is the requested workgroup length clamped to the device
  maximum, and the device maximum when no length is requested. In whole numbers: the byte
  size is at most four times the actual workgroup length.
\<close>

theorem fitsInWorkGroup_iff:
  "(fitsInWorkGroup this \<longleftrightarrow>
      (of_nat (sourceSize this) / 4 :: rat) \<le> of_int (actualWorkgroupLength this)) \<and>
   (fitsInWorkGroup this \<longleftrightarrow> int (src this) \<le> 4 * actualWorkgroupLength this) \<and>
   sourceSize this = src this \<and>
   actualWorkgroupLength this =
     (case workgroupLength this of None \<Rightarrow> device this | Some l \<Rightarrow> min l (device this))"
proof -
  have "((of_nat (src this) / 4 :: rat) \<le> of_int (actualWorkgroupLength this))
        = (int (src this) \<le> 4 * actualWorkgroupLength this)"
  proof -
    have "((of_nat (src this) / 4 :: rat) \<le> of_int (actualWorkgroupLength this))
        = ((of_int (int (src this)) :: rat) \<le> of_int (4 * actualWorkgroupLength this))"
      by (simp add: field_simps)
    also have "\<dots> = (int (src this) \<le> 4 * actualWorkgroupLength this)"
      by (rule of_int_le_iff)
    finally show ?thesis .
  qed
  then show ?thesis
    by (simp add: fitsInWorkGroup_def sourceSize_def BYTES_PER_ELEMENT_def
        actualWorkgroupLength_def limitWorkgroupLength_def min_def split: option.split)
qed

text \<open>
  Claim C7 as stated fails: with a template of 8-byte elements, a 64-byte source holds 8
  elements, which is at most the workgroup length 8, and yet \<open>fitsInWorkGroup\<close> is false,
  since the source divides the byte size by 4.
\<close>

theorem fitsInWorkGroup_template_size_counterexample:
  "\<not> fitsInWorkGroup cfgWide \<and>
   (of_nat (sourceSize cfgWide) / of_nat (elementSize (template cfgWide)) :: rat)
     \<le> of_int (actualWorkgroupLength cfgWide)"
  by (simp add: cfgWide_def cfg_simps)

section \<open>A source that fits in one workgroup\<close>

lemma blockScans_fits:
  assumes "fitsInWorkGroup this"
  shows "blockScans this = Some []"
  using assms
  by (subst blockScans_def, simp add: Let_def fitsInWorkGroup_def, subst blockScansLoop.simps)
     (simp add: Let_def)

text \<open>
  Claim C6, as amended. When the source fits in one workgroup, the orchestrator builds exactly
  one Block Scan Stage, whose exclusive flag is the caller's and whose \<open>emitBlockSums\<close>
  flag is true (the source stage is always asked for block sums); it builds no block-sum
  chain stage and no Apply-Block stage, and the result is that stage's \<open>prefixScan\<close>.
\<close>

theorem fits_single_stage:
  assumes "fitsInWorkGroup this"
  shows "sourceScan this =
           WorkgroupScan (device this) (SrcBuffer (src this)) True (Some (exclusive this))
             (initialValue this) (template this) (workgroupLength this)
             (SourceScanLabel (label this)) \<and>
         blockScans this = Some [] \<and>
         applyScans this = Some (Inr []) \<and>
         shaders this = Some (Inr [Scan (sourceScan this)]) \<and>
         result this = Some (Inr (PrefixScanOf (sourceScan this)))"
  using assms blockScans_fits [OF assms]
  by (simp add: sourceScan_def applyScans_def shaders_def result_def)

theorem fits_single_stage_witness:
  "fitsInWorkGroup cfgSmall \<and>
   sourceScan cfgSmall =
     WorkgroupScan 256 (SrcBuffer 16) True (Some True) None (ScanTemplate 4 0 (+)) (Some 4)
       (SourceScanLabel ''s'') \<and>
   shaders cfgSmall = Some (Inr [Scan (sourceScan cfgSmall)])"
proof -
  have f: "fitsInWorkGroup cfgSmall" by (simp add: cfgSmall_def cfg_simps)
  from fits_single_stage [OF f] f show ?thesis by (simp add: cfgSmall_def)
qed

text \<open>
  Claim C6 as stated fails: the source of \<open>cfgSmall\<close> fits in one workgroup, and its
  source stage is built with \<open>emitBlockSums\<close> true, not false.
\<close>

theorem fits_emits_summaries_counterexample:
  "fitsInWorkGroup cfgSmall \<and> ws_emitBlockSums (sourceScan cfgSmall)"
  by (simp add: cfgSmall_def cfg_simps sourceScan_def)

section \<open>The loop of \<open>blockScans\<close>\<close>

text \<open>
  The loop returns exactly when some number \<open>k\<close> of iterations brings \<open>elements\<close> up to
  the element count, and then it has pushed the stages of these \<open>k\<close> iterations.
\<close>

lemma blockScansLoop_unroll:
  "(\<forall>j<k. of_int (e * wl ^ j) < N) \<Longrightarrow> \<not> of_int (e * wl ^ k) < N \<Longrightarrow>
   blockScansLoop this N wl e source n acc = Some (acc @ blockScanChain this N wl e source n k)"
proof (induction k arbitrary: e source n acc)
  case 0
  then show ?case by (simp add: blockScansLoop.simps)
next
  case (Suc k)
  from Suc.prems(1) have e: "of_int e < N" by force
  have a: "\<forall>j<k. of_int (e * wl * wl ^ j) < N"
  proof (intro allI impI)
    fix j assume "j < k"
    then have "Suc j < Suc k" by simp
    with Suc.prems(1) have "of_int (e * wl ^ Suc j) < N" by blast
    then show "of_int (e * wl * wl ^ j) < N" by (simp add: mult.assoc)
  qed
  have b: "\<not> of_int (e * wl * wl ^ k) < N"
    using Suc.prems(2) by (simp add: mult.assoc)
  show ?case
    using e Suc.IH [OF a b]
    by (subst blockScansLoop.simps) (simp add: Let_def)
qed

lemma blockScansLoop_returns:
  assumes "blockScansLoop this N wl e source n acc = Some r"
  shows "\<exists>k. r = acc @ blockScanChain this N wl e source n k \<and>
             (\<forall>j<k. of_int (e * wl ^ j) < N) \<and> \<not> of_int (e * wl ^ k) < N"
  using assms
proof (induction rule: blockScansLoop.raw_induct [rotated 1, consumes 1])
  case (1 loop this N wl e source n acc r)
  show ?case
  proof (cases "of_int e < N")
    case False
    with 1(2) have "r = acc" by simp
    with False show ?thesis by (intro exI[of _ 0]) simp
  next
    case True
    define b where "b = WorkgroupScan (device this) source (\<not> N \<le> of_int (e * wl)) None None
                           (template this) (workgroupLength this)
                           (BlockToBlockLabel (label this) n)"
    from True 1(2) have "loop this N wl (e * wl) (BlockSumsOf b) (n + 1) (acc @ [b]) = Some r"
      by (simp add: Let_def b_def)
    from 1(1) [OF this] obtain k where
      k: "r = (acc @ [b]) @ blockScanChain this N wl (e * wl) (BlockSumsOf b) (n + 1) k"
         "\<forall>j<k. of_int (e * wl * wl ^ j) < N" "\<not> of_int (e * wl * wl ^ k) < N"
      by blast
    have "r = acc @ blockScanChain this N wl e source n (Suc k)"
      using k(1) by (simp add: Let_def b_def)
    moreover have "\<forall>j<Suc k. of_int (e * wl ^ j) < N"
    proof (intro allI impI)
      fix j assume j: "j < Suc k"
      show "of_int (e * wl ^ j) < N"
      proof (cases j)
        case 0 with True show ?thesis by simp
      next
        case (Suc j')
        with j have "j' < k" by simp
        with k(2) have "of_int (e * wl * wl ^ j') < N" by blast
        with Suc show ?thesis by (simp add: mult.assoc)
      qed
    qed
    moreover have "\<not> of_int (e * wl ^ Suc k) < N"
      using k(3) by (simp add: mult.assoc)
    ultimately show ?thesis by blast
  qed
qed

lemma power_reaches:
  fixes N :: rat and e wl :: int
  assumes "2 \<le> wl" "1 \<le> e"
  shows "\<exists>k. \<not> of_int (e * wl ^ k) < N"
proof -
  obtain m :: nat where m: "N \<le> of_nat m" using real_arch_simple by blast
  have "int m < 2 ^ m" by (metis of_nat_less_two_power)
  also have "(2::int) ^ m \<le> wl ^ m" using assms(1) by (intro power_mono) auto
  also have "wl ^ m \<le> e * wl ^ m" using assms by (simp add: mult_le_cancel_right1)
  finally have "int m \<le> e * wl ^ m" by simp
  then have "(of_nat m :: rat) \<le> of_int (e * wl ^ m)"
    by (metis of_int_le_iff of_int_of_nat_eq)
  with m show ?thesis by (intro exI[of _ m]) linarith
qed

lemma levels_exist:
  fixes N :: rat and e wl :: int
  assumes "2 \<le> wl" "1 \<le> e"
  shows "\<exists>k. (\<forall>j<k. of_int (e * wl ^ j) < N) \<and> \<not> of_int (e * wl ^ k) < N"
proof -
  let ?P = "\<lambda>k. \<not> of_int (e * wl ^ k) < N"
  from power_reaches [OF assms] obtain k0 where "?P k0" by blast
  then have "?P (LEAST k. ?P k)" by (rule LeastI)
  moreover have "\<forall>j<(LEAST k. ?P k). of_int (e * wl ^ j) < N"
    using not_less_Least by blast
  ultimately show ?thesis by blast
qed

lemma blockScanChain_length [simp]:
  "length (blockScanChain this N wl e source n k) = k"
  by (induction k arbitrary: e source n) (simp_all add: Let_def)

lemma blockScanChain_nth:
  "j < k \<Longrightarrow>
   blockScanChain this N wl e source n k ! j =
     WorkgroupScan (device this)
       (if j = 0 then source else BlockSumsOf (blockScanChain this N wl e source n k ! (j - 1)))
       (\<not> N \<le> of_int (e * wl ^ (j + 1))) None None (template this) (workgroupLength this)
       (BlockToBlockLabel (label this) (n + j))"
proof (induction k arbitrary: e source n j)
  case 0
  then show ?case by simp
next
  case (Suc k)
  show ?case
  proof (cases j)
    case 0
    then show ?thesis by (simp add: Let_def)
  next
    case (Suc j')
    with Suc.prems have "j' < k" by simp
    from Suc.IH [OF this] Suc show ?thesis
      by (cases j') (simp_all add: Let_def mult.assoc)
  qed
qed

lemma applyBlocksMap_length [simp]:
  "length (applyBlocksMap this tp b i ss) = length ss"
  by (induction ss arbitrary: b i) (simp_all add: Let_def)

lemma applyBlocksMap_nth:
  "j < length ss \<Longrightarrow>
   applyBlocksMap this tp b i ss ! j =
     ApplyScanBlocks (device this) (arrayGet tp (i + j))
       (if j = 0 then b else ResultOf (applyBlocksMap this tp b i ss ! (j - 1)))
       (template this) (exclusive this) (initialValue this)
       (Some (actualWorkgroupLength this)) (ApplyBlockLabel (label this) (i + j))"
proof (induction ss arbitrary: b i j)
  case Nil
  then show ?case by simp
next
  case (Cons s ss)
  show ?case
  proof (cases j)
    case 0
    then show ?thesis by (simp add: Let_def)
  next
    case (Suc j')
    with Cons.prems have "j' < length ss" by simp
    from Cons.IH [OF this] Suc show ?thesis
      by (cases j') (simp_all add: Let_def)
  qed
qed

lemma blockScans_Some_iff:
  "blockScans this = Some bs \<longleftrightarrow>
     (\<exists>k. bs = blockScanChain this (of_nat (src this) / 4) (actualWorkgroupLength this)
                 (actualWorkgroupLength this) (BlockSumsOf (sourceScan this)) 0 k \<and>
          (\<forall>j<k. of_int (actualWorkgroupLength this * actualWorkgroupLength this ^ j)
                    < (of_nat (src this) / 4 :: rat)) \<and>
          \<not> of_int (actualWorkgroupLength this * actualWorkgroupLength this ^ k)
                    < (of_nat (src this) / 4 :: rat))"
proof
  assume "blockScans this = Some bs"
  then show "\<exists>k. bs = blockScanChain this (of_nat (src this) / 4) (actualWorkgroupLength this)
                 (actualWorkgroupLength this) (BlockSumsOf (sourceScan this)) 0 k \<and>
          (\<forall>j<k. of_int (actualWorkgroupLength this * actualWorkgroupLength this ^ j)
                    < (of_nat (src this) / 4 :: rat)) \<and>
          \<not> of_int (actualWorkgroupLength this * actualWorkgroupLength this ^ k)
                    < (of_nat (src this) / 4 :: rat)"
    using blockScansLoop_returns [of this "of_nat (src this) / 4" "actualWorkgroupLength this"
        "actualWorkgroupLength this" "BlockSumsOf (sourceScan this)" 0 "[]" bs]
    by (simp add: blockScans_def sourceSize_def BYTES_PER_ELEMENT_def Let_def)
next
  assume "\<exists>k. bs = blockScanChain this (of_nat (src this) / 4) (actualWorkgroupLength this)
                 (actualWorkgroupLength this) (BlockSumsOf (sourceScan this)) 0 k \<and>
          (\<forall>j<k. of_int (actualWorkgroupLength this * actualWorkgroupLength this ^ j)
                    < (of_nat (src this) / 4 :: rat)) \<and>
          \<not> of_int (actualWorkgroupLength this * actualWorkgroupLength this ^ k)
                    < (of_nat (src this) / 4 :: rat)"
  then obtain k where k: "bs = blockScanChain this (of_nat (src this) / 4)
        (actualWorkgroupLength this) (actualWorkgroupLength this)
        (BlockSumsOf (sourceScan this)) 0 k"
    "\<forall>j<k. of_int (actualWorkgroupLength this * actualWorkgroupLength this ^ j)
                    < (of_nat (src this) / 4 :: rat)"
    "\<not> of_int (actualWorkgroupLength this * actualWorkgroupLength this ^ k)
                    < (of_nat (src this) / 4 :: rat)"
    by blast
  from blockScansLoop_unroll [OF k(2) k(3), of this "BlockSumsOf (sourceScan this)" 0 "[]"] k(1)
  show "blockScans this = Some bs"
    by (simp add: blockScans_def sourceSize_def BYTES_PER_ELEMENT_def Let_def)
qed

lemma blockScans_total:
  assumes "2 \<le> actualWorkgroupLength this"
  shows "\<exists>bs. blockScans this = Some bs"
proof -
  from assms have "1 \<le> actualWorkgroupLength this" by simp
  from levels_exist [OF assms this, of "of_nat (src this) / 4"]
  show ?thesis unfolding blockScans_Some_iff by blast
qed

text \<open>
  With an actual workgroup length of 1 and a source that does not fit, \<open>elements\<close> stays 1
  and the loop never ends.
\<close>

lemma blockScans_runs_forever:
  assumes one: "actualWorkgroupLength this = 1" and nf: "\<not> fitsInWorkGroup this"
  shows "blockScans this = None"
proof (cases "blockScans this")
  case None
  then show ?thesis .
next
  case (Some bs)
  then obtain k where "\<not> of_int (actualWorkgroupLength this * actualWorkgroupLength this ^ k)
                          < (of_nat (src this) / 4 :: rat)"
    unfolding blockScans_Some_iff by blast
  moreover from nf one have "1 < (of_nat (src this) / 4 :: rat)"
    by (simp add: fitsInWorkGroup_def sourceSize_def BYTES_PER_ELEMENT_def)
  ultimately show ?thesis using one by simp
qed

lemma blockScans_nonempty:
  assumes "\<not> fitsInWorkGroup this" "blockScans this = Some bs"
  shows "bs \<noteq> []"
proof -
  from assms(2) obtain k where k: "length bs = k"
    "\<not> of_int (actualWorkgroupLength this * actualWorkgroupLength this ^ k)
                    < (of_nat (src this) / 4 :: rat)"
    unfolding blockScans_Some_iff by auto
  from assms(1) have "of_int (actualWorkgroupLength this) < (of_nat (src this) / 4 :: rat)"
    by (simp add: fitsInWorkGroup_def sourceSize_def BYTES_PER_ELEMENT_def)
  with k(2) have "k \<noteq> 0" by (intro notI) simp
  with k(1) show ?thesis by auto
qed

lemma applyScans_large:
  assumes "\<not> fitsInWorkGroup this" "blockScans this = Some bs"
  shows "applyScans this =
           Some (Inr (applyBlocksMap this
                        (drop 1 (map PrefixScanOf (rev bs)) @ [PrefixScanOf (sourceScan this)])
                        (PrefixScanOf (last bs)) 0 (rev bs)))"
  using assms blockScans_nonempty [OF assms]
  by (simp add: applyScans_def Let_def)

lemma applyScans_never_throws:
  "applyScans this \<noteq> Some (Inl e)"
proof (cases "fitsInWorkGroup this")
  case True
  then show ?thesis by (simp add: applyScans_def)
next
  case False
  show ?thesis
  proof (cases "blockScans this")
    case None
    with False show ?thesis by (simp add: applyScans_def)
  next
    case (Some bs)
    from applyScans_large [OF False Some] show ?thesis by simp
  qed
qed

lemma applyScans_cases:
  assumes "\<not> fitsInWorkGroup this" "applyScans this = Some (Inr as)"
  shows "\<exists>bs. blockScans this = Some bs \<and> bs \<noteq> [] \<and> length as = length bs \<and>
           as = applyBlocksMap this
                  (drop 1 (map PrefixScanOf (rev bs)) @ [PrefixScanOf (sourceScan this)])
                  (PrefixScanOf (last bs)) 0 (rev bs)"
proof (cases "blockScans this")
  case None
  with assms show ?thesis by (simp add: applyScans_def)
next
  case (Some bs)
  from applyScans_large [OF assms(1) Some] assms(2) blockScans_nonempty [OF assms(1) Some] Some
  show ?thesis by auto
qed

lemma cfgCube_large:
  "\<not> fitsInWorkGroup cfgCube \<and> 2 \<le> actualWorkgroupLength cfgCube"
  by (simp add: cfgCube_def cfg_simps)

section \<open>The terminal result\<close>

lemma cfgOne_runs_forever:
  "actualWorkgroupLength cfgOne = 1 \<and> \<not> fitsInWorkGroup cfgOne \<and> blockScans cfgOne = None"
proof -
  have a: "actualWorkgroupLength cfgOne = 1" "\<not> fitsInWorkGroup cfgOne"
    by (simp_all add: cfgOne_def cfg_simps)
  from blockScans_runs_forever [OF a] a show ?thesis by simp
qed

text \<open>
  Claim C2, as amended. For every configuration whose source fits in one workgroup or whose
  actual workgroup length is at least 2, exactly one stage output is the terminal result:
  the \<open>result\<close> getter returns the \<open>prefixScan\<close> buffer of the source stage when the
  source fits in one workgroup, and otherwise the \<open>result\<close> buffer of the last Apply-Block
  stage of the \<open>applyScans\<close> chain.
\<close>

theorem result_terminal:
  "(fitsInWorkGroup this \<longrightarrow> result this = Some (Inr (PrefixScanOf (sourceScan this)))) \<and>
   (\<not> fitsInWorkGroup this \<and> 2 \<le> actualWorkgroupLength this \<longrightarrow>
      (\<exists>as. applyScans this = Some (Inr as) \<and> as \<noteq> [] \<and>
            result this = Some (Inr (ResultOf (last as)))))"
proof (intro conjI impI)
  assume "fitsInWorkGroup this"
  then show "result this = Some (Inr (PrefixScanOf (sourceScan this)))"
    by (simp add: result_def)
next
  assume a: "\<not> fitsInWorkGroup this \<and> 2 \<le> actualWorkgroupLength this"
  then obtain bs where "blockScans this = Some bs" using blockScans_total by blast
  with a applyScans_large obtain as where as: "applyScans this = Some (Inr as)" by blast
  with a applyScans_cases have "as \<noteq> []" by fastforce
  with a as show "\<exists>as. applyScans this = Some (Inr as) \<and> as \<noteq> [] \<and>
                      result this = Some (Inr (ResultOf (last as)))"
    by (simp add: result_def)
qed

theorem result_terminal_witness:
  "\<not> fitsInWorkGroup cfgCube \<and> 2 \<le> actualWorkgroupLength cfgCube \<and>
   (\<exists>as. applyScans cfgCube = Some (Inr as) \<and> as \<noteq> [] \<and>
      result cfgCube = Some (Inr (ResultOf (last as))))"
  using result_terminal [of cfgCube] cfgCube_large by blast

text \<open>
  Claim C2 as stated fails: with two elements and a workgroup length of 1 the source does not
  fit, the loop of \<open>blockScans\<close> never ends, and the \<open>result\<close> getter returns nothing.
\<close>

theorem result_never_returns_counterexample:
  "actualWorkgroupLength cfgOne = 1 \<and> sourceSize cfgOne = 8 \<and>
   \<not> fitsInWorkGroup cfgOne \<and> result cfgOne = None"
  using cfgOne_runs_forever
  by (simp add: result_def applyScans_def) (simp add: cfgOne_def sourceSize_def)

text \<open>
  Claim C10. Whenever \<open>fitsInWorkGroup\<close> is false, a \<open>blockScans\<close> list holds at least one
  stage, and so does the \<open>applyScans\<close> list, which is as long; the reads of the last
  element in \<open>applyScans\<close> and in \<open>result\<close> find an element and never throw. The lists
  exist whenever the actual workgroup length is at least 2.
\<close>

theorem last_accesses_safe:
  assumes "\<not> fitsInWorkGroup this"
  shows "(\<forall>bs. blockScans this = Some bs \<longrightarrow>
            bs \<noteq> [] \<and>
            (\<exists>as. applyScans this = Some (Inr as) \<and> as \<noteq> [] \<and> length as = length bs \<and>
                  result this = Some (Inr (ResultOf (last as))))) \<and>
         applyScans this \<noteq> Some (Inl TypeError) \<and>
         result this \<noteq> Some (Inl TypeError) \<and>
         (2 \<le> actualWorkgroupLength this \<longrightarrow> (\<exists>bs. blockScans this = Some bs))"
proof (intro conjI impI allI)
  fix bs assume b: "blockScans this = Some bs"
  from blockScans_nonempty [OF assms b] show ne: "bs \<noteq> []" .
  let ?as = "applyBlocksMap this
               (drop 1 (map PrefixScanOf (rev bs)) @ [PrefixScanOf (sourceScan this)])
               (PrefixScanOf (last bs)) 0 (rev bs)"
  have l: "length ?as = length bs" by simp
  with ne have "?as \<noteq> []" by (metis length_0_conv)
  with applyScans_large [OF assms b] l assms
  show "\<exists>as. applyScans this = Some (Inr as) \<and> as \<noteq> [] \<and> length as = length bs \<and>
              result this = Some (Inr (ResultOf (last as)))"
    by (intro exI[of _ ?as]) (simp add: result_def)
next
  show "applyScans this \<noteq> Some (Inl TypeError)" by (rule applyScans_never_throws)
next
  show "result this \<noteq> Some (Inl TypeError)"
  proof (cases "applyScans this")
    case None
    with assms show ?thesis by (simp add: result_def)
  next
    case (Some r)
    show ?thesis
    proof (cases r)
      case (Inl e)
      with Some applyScans_never_throws show ?thesis by blast
    next
      case (Inr as)
      with Some applyScans_cases [OF assms] have "as \<noteq> []" by auto
      with Some Inr assms show ?thesis by (simp add: result_def)
    qed
  qed
next
  assume "2 \<le> actualWorkgroupLength this"
  then show "\<exists>bs. blockScans this = Some bs" by (rule blockScans_total)
qed

theorem last_accesses_safe_witness:
  "\<not> fitsInWorkGroup cfgCube \<and>
   (\<exists>bs as. blockScans cfgCube = Some bs \<and> bs \<noteq> [] \<and>
      applyScans cfgCube = Some (Inr as) \<and> as \<noteq> [] \<and> length as = length bs) \<and>
   result cfgCube \<noteq> Some (Inl TypeError)"
proof -
  have g: "\<not> fitsInWorkGroup cfgCube" "2 \<le> actualWorkgroupLength cfgCube"
    using cfgCube_large by simp_all
  from last_accesses_safe [OF g(1)] g show ?thesis by blast
qed

section \<open>The length of the chain\<close>

lemma levels_iff:
  fixes N :: rat and L :: int
  assumes L: "1 \<le> L"
    and A: "\<forall>j<k. of_int (L * L ^ j) < N"
    and B: "\<not> of_int (L * L ^ k) < N"
  shows "j < k \<longleftrightarrow> of_int (L * L ^ j) < N"
proof
  assume "j < k" with A show "of_int (L * L ^ j) < N" by blast
next
  assume j: "of_int (L * L ^ j) < N"
  show "j < k"
  proof (rule ccontr)
    assume "\<not> j < k"
    then have "k \<le> j" by simp
    with L have "L ^ k \<le> L ^ j" by (intro power_increasing) auto
    with L have "L * L ^ k \<le> L * L ^ j" by (intro mult_left_mono) auto
    then have "(of_int (L * L ^ k) :: rat) \<le> of_int (L * L ^ j)" by (rule iffD2 [OF of_int_le_iff])
    with j B show False by linarith
  qed
qed

lemma level_count_iff:
  fixes N :: rat and L :: int
  assumes L: "1 \<le> L"
  shows "(L < \<lceil>N / of_int (L ^ j)\<rceil>) \<longleftrightarrow> of_int (L * L ^ j) < N"
proof -
  have p: "(0::rat) < of_int (L ^ j)" using L by simp
  have "(L < \<lceil>N / of_int (L ^ j)\<rceil>) \<longleftrightarrow> of_int L < N / of_int (L ^ j)"
    by (rule less_ceiling_iff)
  also have "\<dots> \<longleftrightarrow> of_int L * of_int (L ^ j) < N"
    using p by (rule pos_less_divide_eq)
  finally show ?thesis by simp
qed

text \<open>
  Claim C4. For every source size and every actual workgroup length \<open>L \<ge> 2\<close> the loop
  of \<open>blockScans\<close> returns. With \<open>N\<close> the element count, level \<open>j\<close> holds
  \<open>\<lceil>N / L^j\<rceil>\<close> elements, and chain stage \<open>j\<close> (level \<open>j + 1\<close>) is built exactly when
  level \<open>j\<close> holds more than \<open>L\<close> elements: the chain stops at the first level that holds
  at most \<open>L\<close>. Every chain stage but the last emits block sums, the last one does not.
  For \<open>N = L^3\<close> there are exactly 2 chain stages (3 Block Scan stages with the source
  stage) and exactly 2 Apply-Block stages.
\<close>

theorem chain_terminates:
  assumes L: "2 \<le> actualWorkgroupLength this"
  shows "\<exists>bs as. blockScans this = Some bs \<and> applyScans this = Some (Inr as) \<and>
           length as = length bs \<and>
           (\<forall>j. j < length bs \<longleftrightarrow>
                actualWorkgroupLength this
                  < \<lceil>(of_nat (src this) / 4 :: rat) / of_int (actualWorkgroupLength this ^ j)\<rceil>) \<and>
           \<lceil>(of_nat (src this) / 4 :: rat) / of_int (actualWorkgroupLength this ^ length bs)\<rceil>
              \<le> actualWorkgroupLength this \<and>
           (\<forall>j<length bs. ws_emitBlockSums (bs ! j) = (Suc j < length bs)) \<and>
           (bs \<noteq> [] \<longrightarrow> \<not> ws_emitBlockSums (last bs)) \<and>
           (src this = 4 * nat (actualWorkgroupLength this) ^ 3 \<longrightarrow>
              length bs = 2 \<and> length as = 2) \<and>
           shaders this = Some (Inr (Scan (sourceScan this) # map Scan bs @ map Apply as))"
proof -
  define wl where "wl = actualWorkgroupLength this"
  define N :: rat where "N = of_nat (src this) / 4"
  have L1: "1 \<le> wl" using L by (simp add: wl_def)
  from blockScans_total [OF L] obtain bs where bs: "blockScans this = Some bs" by blast
  then obtain k where k:
    "bs = blockScanChain this N wl wl (BlockSumsOf (sourceScan this)) 0 k"
    "\<forall>j<k. of_int (wl * wl ^ j) < N" "\<not> of_int (wl * wl ^ k) < N"
    unfolding blockScans_Some_iff wl_def N_def by blast
  have len: "length bs = k" using k(1) by simp
  have lv: "\<And>j. j < k \<longleftrightarrow> of_int (wl * wl ^ j) < N"
    by (rule levels_iff [OF L1 k(2) k(3)])
  obtain as where as: "applyScans this = Some (Inr as)" "length as = length bs"
  proof (cases "fitsInWorkGroup this")
    case True
    with blockScans_fits [OF True] bs that show ?thesis by (simp add: applyScans_def)
  next
    case False
    from applyScans_large [OF False bs] that show ?thesis by simp
  qed
  have count: "\<forall>j. j < length bs \<longleftrightarrow> wl < \<lceil>N / of_int (wl ^ j)\<rceil>"
    using lv level_count_iff [OF L1, of N] len by simp
  then have stop: "\<lceil>N / of_int (wl ^ length bs)\<rceil> \<le> wl"
    by (metis less_irrefl not_le)
  have emit: "\<forall>j<length bs. ws_emitBlockSums (bs ! j) = (Suc j < length bs)"
  proof (intro allI impI)
    fix j assume j: "j < length bs"
    with len have "j < k" by simp
    from blockScanChain_nth [OF this, of this N wl wl "BlockSumsOf (sourceScan this)" 0] k(1)
    have "ws_emitBlockSums (bs ! j) = (\<not> N \<le> of_int (wl * wl ^ (j + 1)))" by simp
    also have "\<dots> = (of_int (wl * wl ^ Suc j) < N)" by (simp add: not_le)
    also have "\<dots> = (Suc j < k)" using lv [of "Suc j"] by simp
    finally show "ws_emitBlockSums (bs ! j) = (Suc j < length bs)" using len by simp
  qed
  have lastb: "bs \<noteq> [] \<longrightarrow> \<not> ws_emitBlockSums (last bs)"
  proof
    assume ne: "bs \<noteq> []"
    then have "last bs = bs ! (length bs - 1)" by (rule last_conv_nth)
    moreover from ne have "length bs - 1 < length bs" by simp
    ultimately show "\<not> ws_emitBlockSums (last bs)" using emit by simp
  qed
  have cube: "src this = 4 * nat wl ^ 3 \<longrightarrow> length bs = 2 \<and> length as = 2"
  proof
    assume s: "src this = 4 * nat wl ^ 3"
    have "N = of_int (wl ^ 3)"
    proof -
      have "int (nat wl ^ 3) = wl ^ 3" using L1 by simp
      then have "(of_nat (nat wl ^ 3) :: rat) = of_int (wl ^ 3)"
        by (metis of_int_of_nat_eq)
      then show ?thesis by (simp add: N_def s)
    qed
    then have N: "\<And>m. (of_int m < N) = (m < wl ^ 3)" by simp
    have w2: "2 \<le> wl" using L by (simp add: wl_def)
    have w4: "4 \<le> wl * wl" using mult_mono [of 2 wl 2 wl] w2 by simp
    have "wl * 1 < wl * (wl * wl)"
      using w2 w4 by (intro mult_strict_left_mono) auto
    then have c0: "wl * wl ^ 0 < wl ^ 3" by (simp add: power3_eq_cube)
    have "wl * wl * 1 < wl * wl * wl"
      using w2 w4 by (intro mult_strict_left_mono) auto
    then have c1: "wl * wl ^ 1 < wl ^ 3" by (simp add: power3_eq_cube)
    have c2: "\<not> wl * wl ^ 2 < wl ^ 3" by (simp add: power3_eq_cube power2_eq_square)
    note c0 c1 c2
    then have "0 < k" "1 < k" "\<not> 2 < k" using lv N by blast+
    then have "k = 2" by simp
    with len as(2) show "length bs = 2 \<and> length as = 2" by simp
  qed
  have sh: "shaders this = Some (Inr (Scan (sourceScan this) # map Scan bs @ map Apply as))"
    using bs as(1) by (simp add: shaders_def)
  from bs as count stop emit lastb cube sh show ?thesis
    unfolding wl_def N_def by blast
qed

theorem chain_terminates_witness:
  "2 \<le> actualWorkgroupLength cfgCube \<and> src cfgCube = 4 * nat (actualWorkgroupLength cfgCube) ^ 3 \<and>
   (\<exists>bs as. blockScans cfgCube = Some bs \<and> applyScans cfgCube = Some (Inr as) \<and>
      length bs = 2 \<and> length as = 2 \<and> \<not> ws_emitBlockSums (last bs))"
proof -
  have g: "2 \<le> actualWorkgroupLength cfgCube" using cfgCube_large by simp
  have c: "src cfgCube = 4 * nat (actualWorkgroupLength cfgCube) ^ 3"
    by (simp add: cfgCube_def cfg_simps)
  from chain_terminates [OF g] c g show ?thesis by fastforce
qed

section \<open>Where the exclusive flag and the initial value go\<close>

lemma cfgCube_sourceScan: "sourceScan cfgCube = cubeSource"
  by (simp add: sourceScan_def cfgCube_def cubeSource_def cfg_simps)

lemma cfgCube_blockScans: "blockScans cfgCube = Some [cubeScan0, cubeScan1]"
proof -
  have "blockScans cfgCube =
          blockScansLoop cfgCube 8 2 2 (BlockSumsOf cubeSource) 0 []"
    by (simp add: blockScans_def Let_def cfgCube_sourceScan) (simp add: cfgCube_def cfg_simps)
  also have "\<dots> = blockScansLoop cfgCube 8 2 4 (BlockSumsOf cubeScan0) 1 [cubeScan0]"
    by (subst blockScansLoop.simps) (simp add: Let_def cubeScan0_def cfgCube_def)
  also have "\<dots> = blockScansLoop cfgCube 8 2 8 (BlockSumsOf cubeScan1) (Suc (Suc 0))
                        [cubeScan0, cubeScan1]"
    by (subst blockScansLoop.simps) (simp add: Let_def cubeScan1_def cfgCube_def)
  also have "\<dots> = Some [cubeScan0, cubeScan1]"
    by (subst blockScansLoop.simps) simp
  finally show ?thesis .
qed

lemma cfgCube_applyScans: "applyScans cfgCube = Some (Inr [cubeApply0, cubeApply1])"
proof -
  have g: "\<not> fitsInWorkGroup cfgCube" using cfgCube_large by simp
  have a: "actualWorkgroupLength cfgCube = 2" by (simp add: cfgCube_def cfg_simps)
  show ?thesis
    unfolding applyScans_large [OF g cfgCube_blockScans] cfgCube_sourceScan
    by (simp add: Let_def arrayGet_def a cubeApply0_def cubeApply1_def)
       (simp add: cfgCube_def)
qed

lemma blockScanChain_inclusive:
  "b \<in> set (blockScanChain this N wl e source n k) \<Longrightarrow>
   ws_exclusiveSmall b = None \<and> ws_initialValue b = None"
  by (induction k arbitrary: e source n) (auto simp: Let_def)

lemma applyBlocksMap_flags:
  "a \<in> set (applyBlocksMap this tp b i ss) \<Longrightarrow>
   ab_exclusiveLarge a = exclusive this \<and> ab_initialValue a = initialValue this"
  by (induction ss arbitrary: b i) (auto simp: Let_def)

text \<open>
  Claim C3, as amended. Whenever the source does not fit in one workgroup, the source stage
  is built with \<open>emitBlockSums\<close> true and \<open>exclusiveSmall\<close> false, and it is passed the
  caller's initial value; every block-sum chain stage, the coarsest one included, is built
  with no exclusive flag and no initial value; the caller's exclusive flag and initial value
  are passed to every Apply-Block stage.
\<close>

theorem large_stage_flags:
  assumes nf: "\<not> fitsInWorkGroup this"
  shows "ws_emitBlockSums (sourceScan this) \<and>
         ws_exclusiveSmall (sourceScan this) = Some False \<and>
         ws_initialValue (sourceScan this) = initialValue this \<and>
         (\<forall>bs. blockScans this = Some bs \<longrightarrow>
            (\<forall>b\<in>set bs. ws_exclusiveSmall b = None \<and> ws_initialValue b = None)) \<and>
         (\<forall>as. applyScans this = Some (Inr as) \<longrightarrow>
            as \<noteq> [] \<and>
            (\<forall>a\<in>set as. ab_exclusiveLarge a = exclusive this \<and>
                          ab_initialValue a = initialValue this)) \<and>
         (2 \<le> actualWorkgroupLength this \<longrightarrow>
            (\<exists>bs as. blockScans this = Some bs \<and> applyScans this = Some (Inr as)))"
proof (intro conjI allI impI ballI)
  show "ws_emitBlockSums (sourceScan this)" by (simp add: sourceScan_def)
  show "ws_exclusiveSmall (sourceScan this) = Some False" using nf by (simp add: sourceScan_def)
  show "ws_initialValue (sourceScan this) = initialValue this" by (simp add: sourceScan_def)
next
  fix bs b assume "blockScans this = Some bs" "b \<in> set bs"
  then obtain k where "b \<in> set (blockScanChain this (of_nat (src this) / 4)
      (actualWorkgroupLength this) (actualWorkgroupLength this)
      (BlockSumsOf (sourceScan this)) 0 k)"
    unfolding blockScans_Some_iff by blast
  from blockScanChain_inclusive [OF this]
  show "ws_exclusiveSmall b = None" "ws_initialValue b = None" by simp_all
next
  fix as assume a: "applyScans this = Some (Inr as)"
  from applyScans_cases [OF nf a] show "as \<noteq> []" by auto
  fix x assume "x \<in> set as"
  with applyScans_cases [OF nf a] applyBlocksMap_flags [of x this]
  show "ab_exclusiveLarge x = exclusive this" "ab_initialValue x = initialValue this"
    by blast+
next
  assume "2 \<le> actualWorkgroupLength this"
  then obtain bs where "blockScans this = Some bs" using blockScans_total by blast
  with applyScans_large [OF nf]
  show "\<exists>bs as. blockScans this = Some bs \<and> applyScans this = Some (Inr as)" by blast
qed

theorem large_stage_flags_witness:
  "\<not> fitsInWorkGroup cfgCube \<and>
   ws_exclusiveSmall (sourceScan cfgCube) = Some False \<and>
   ws_exclusiveSmall cubeScan0 = None \<and> ws_exclusiveSmall cubeScan1 = None \<and>
   ab_exclusiveLarge cubeApply0 = exclusive cfgCube \<and>
   ab_exclusiveLarge cubeApply1 = exclusive cfgCube"
proof -
  have g: "\<not> fitsInWorkGroup cfgCube" using cfgCube_large by simp
  from large_stage_flags [OF g] cfgCube_blockScans cfgCube_applyScans g
  show ?thesis by simp
qed

text \<open>
  Claim C3 as stated fails: in \<open>cfgCube\<close> (exclusive, initial value 100, three levels) the
  coarsest scan \<open>cubeScan1\<close> receives neither the flag nor the value, while the Apply-Block
  stage of the lowest level, \<open>cubeApply1\<close>, receives both and the source stage receives the
  value: they are not threaded into the top-level scan only.
\<close>

theorem exclusive_threading_counterexample:
  "\<not> fitsInWorkGroup cfgCube \<and> exclusive cfgCube \<and> initialValue cfgCube = Some 100 \<and>
   blockScans cfgCube = Some [cubeScan0, cubeScan1] \<and>
   applyScans cfgCube = Some (Inr [cubeApply0, cubeApply1]) \<and>
   ws_exclusiveSmall cubeScan1 = None \<and> ws_initialValue cubeScan1 = None \<and>
   ab_exclusiveLarge cubeApply1 \<and> ab_initialValue cubeApply1 = Some 100 \<and>
   ws_initialValue (sourceScan cfgCube) = Some 100"
  using cfgCube_large cfgCube_blockScans cfgCube_applyScans cfgCube_sourceScan
  by (simp add: cubeScan1_def cubeApply1_def cubeSource_def) (simp add: cfgCube_def)

section \<open>What a change of the exclusive flag or the initial value leaves alone\<close>

lemma blockScanChain_ownArgs:
  assumes "device that = device this" "template that = template this"
    "workgroupLength that = workgroupLength this" "label that = label this"
  shows "map ownArgs (blockScanChain that N wl e source' n k) =
         map ownArgs (blockScanChain this N wl e source n k)"
  using assms
  by (induction k arbitrary: e source source' n) (simp_all add: Let_def ownArgs_def)

lemma blockScans_frame:
  assumes "blockScans this = Some bs"
  shows "\<exists>bs'. blockScans (this\<lparr>initialValue := iv, exclusive := ex\<rparr>) = Some bs' \<and>
               map ownArgs bs' = map ownArgs bs"
proof -
  let ?that = "this\<lparr>initialValue := iv, exclusive := ex\<rparr>"
  have wl: "actualWorkgroupLength ?that = actualWorkgroupLength this"
    by (simp add: actualWorkgroupLength_def)
  from assms obtain k where k:
    "bs = blockScanChain this (of_nat (src this) / 4) (actualWorkgroupLength this)
            (actualWorkgroupLength this) (BlockSumsOf (sourceScan this)) 0 k"
    "\<forall>j<k. of_int (actualWorkgroupLength this * actualWorkgroupLength this ^ j)
              < (of_nat (src this) / 4 :: rat)"
    "\<not> of_int (actualWorkgroupLength this * actualWorkgroupLength this ^ k)
              < (of_nat (src this) / 4 :: rat)"
    unfolding blockScans_Some_iff by blast
  let ?bs' = "blockScanChain ?that (of_nat (src this) / 4) (actualWorkgroupLength this)
            (actualWorkgroupLength this) (BlockSumsOf (sourceScan ?that)) 0 k"
  have "blockScans ?that = Some ?bs'"
    unfolding blockScans_Some_iff wl using k(2,3) by (intro exI[of _ k]) simp
  moreover have "map ownArgs ?bs' = map ownArgs bs"
    unfolding k(1) by (rule blockScanChain_ownArgs) simp_all
  ultimately show ?thesis by blast
qed

text \<open>
  Claim C8, as amended. For a fixed source buffer and workgroup length, changing only the
  initial value or the exclusive flag leaves \<open>fitsInWorkGroup\<close> and the shape of the
  block-sum stage chain as they are: the same number of levels, and for each level the same
  \<open>emitBlockSums\<close> flag and the same other arguments. What changes is the source stage,
  which is passed the new initial value (and the new exclusive flag when the source fits),
  and every Apply-Block stage, which is passed both.
\<close>

theorem chain_shape_frame:
  "fitsInWorkGroup (this\<lparr>initialValue := iv, exclusive := ex\<rparr>) = fitsInWorkGroup this \<and>
   map_option (map ownArgs) (blockScans (this\<lparr>initialValue := iv, exclusive := ex\<rparr>))
     = map_option (map ownArgs) (blockScans this) \<and>
   map_option length (blockScans (this\<lparr>initialValue := iv, exclusive := ex\<rparr>))
     = map_option length (blockScans this) \<and>
   map_option (map ws_emitBlockSums) (blockScans (this\<lparr>initialValue := iv, exclusive := ex\<rparr>))
     = map_option (map ws_emitBlockSums) (blockScans this) \<and>
   sourceScan (this\<lparr>initialValue := iv, exclusive := ex\<rparr>) =
     WorkgroupScan (device this) (SrcBuffer (src this)) True (Some (ex \<and> fitsInWorkGroup this)) iv
       (template this) (workgroupLength this) (SourceScanLabel (label this)) \<and>
   (\<forall>as. applyScans (this\<lparr>initialValue := iv, exclusive := ex\<rparr>) = Some (Inr as) \<longrightarrow>
      (\<forall>a\<in>set as. ab_exclusiveLarge a = ex \<and> ab_initialValue a = iv))"
proof -
  let ?that = "this\<lparr>initialValue := iv, exclusive := ex\<rparr>"
  have fit: "fitsInWorkGroup ?that = fitsInWorkGroup this"
    by (simp add: cfg_simps)
  have own: "map_option (map ownArgs) (blockScans ?that) = map_option (map ownArgs) (blockScans this)"
  proof (cases "blockScans this")
    case (Some bs)
    from blockScans_frame [OF Some, where iv = iv and ex = ex] Some show ?thesis by auto
  next
    case None
    show ?thesis
    proof (cases "blockScans ?that")
      case None
      with \<open>blockScans this = None\<close> show ?thesis by simp
    next
      case (Some bs')
      from blockScans_frame [OF Some, where iv = "initialValue this" and ex = "exclusive this"]
      have "\<exists>bs. blockScans this = Some bs" by auto
      with None show ?thesis by simp
    qed
  qed
  have len: "map_option length (blockScans ?that) = map_option length (blockScans this)"
  proof -
    have "map_option length (blockScans ?that) = map_option length (map_option (map ownArgs) (blockScans ?that))"
      by (simp add: option.map_comp comp_def)
    also have "\<dots> = map_option length (map_option (map ownArgs) (blockScans this))"
      by (simp only: own)
    also have "\<dots> = map_option length (blockScans this)"
      by (simp add: option.map_comp comp_def)
    finally show ?thesis .
  qed
  have em: "map_option (map ws_emitBlockSums) (blockScans ?that)
              = map_option (map ws_emitBlockSums) (blockScans this)"
  proof -
    have e: "ws_emitBlockSums = (\<lambda>p. fst (snd p)) \<circ> ownArgs"
      by (rule ext) (simp add: ownArgs_def)
    have r: "\<And>x. map_option (map ws_emitBlockSums) x
            = map_option (map (\<lambda>p. fst (snd p))) (map_option (map ownArgs) x)"
      by (simp add: option.map_comp comp_def e)
    show ?thesis by (simp only: r own)
  qed
  have src: "sourceScan ?that =
     WorkgroupScan (device this) (SrcBuffer (src this)) True (Some (ex \<and> fitsInWorkGroup this)) iv
       (template this) (workgroupLength this) (SourceScanLabel (label this))"
    unfolding sourceScan_def fit by simp
  have ap: "\<forall>as. applyScans ?that = Some (Inr as) \<longrightarrow>
      (\<forall>a\<in>set as. ab_exclusiveLarge a = ex \<and> ab_initialValue a = iv)"
  proof (intro allI impI ballI)
    fix as a assume as: "applyScans ?that = Some (Inr as)" "a \<in> set as"
    show "ab_exclusiveLarge a = ex \<and> ab_initialValue a = iv"
    proof (cases "fitsInWorkGroup ?that")
      case True
      with as show ?thesis by (simp add: applyScans_def)
    next
      case False
      from applyScans_cases [OF False as(1)] as(2) applyBlocksMap_flags [of a ?that]
      show ?thesis by auto
    qed
  qed
  from fit own len em src ap show ?thesis by blast
qed

theorem chain_shape_frame_witness:
  "map_option (map ws_emitBlockSums)
     (blockScans (cfgCube\<lparr>initialValue := None, exclusive := False\<rparr>)) = Some [True, False] \<and>
   sourceScan (cfgCube\<lparr>initialValue := None, exclusive := False\<rparr>) =
     WorkgroupScan 256 (SrcBuffer 32) True (Some False) None (ScanTemplate 4 0 (+)) (Some 2)
       (SourceScanLabel ''c'')"
proof -
  have g: "\<not> fitsInWorkGroup cfgCube" using cfgCube_large by simp
  from chain_shape_frame [where this = cfgCube and iv = None and ex = False] cfgCube_blockScans g
  show ?thesis
    by (simp add: cubeScan0_def cubeScan1_def) (simp add: cfgCube_def)
qed

text \<open>
  Claim C8 as stated fails: in \<open>cfgCube\<close> the source does not fit, so the source stage is
  neither the top-level stage nor an Apply-Block stage, and yet a change of the initial value
  alone changes the arguments it is built with.
\<close>

theorem frame_source_stage_counterexample:
  "\<not> fitsInWorkGroup cfgCube \<and>
   initialValue cfgCube = Some 100 \<and>
   ws_initialValue (sourceScan cfgCube) = Some 100 \<and>
   \<not> fitsInWorkGroup (cfgCube\<lparr>initialValue := None\<rparr>) \<and>
   ws_initialValue (sourceScan (cfgCube\<lparr>initialValue := None\<rparr>)) = None"
  by (simp add: sourceScan_def cfg_simps) (simp add: cfgCube_def)

section \<open>Invalid block lengths and empty sources\<close>

lemma foldl_snoc: "foldl (\<lambda>enc s. enc @ [s]) enc ss = enc @ ss"
  by (induction ss arbitrary: enc) simp_all






section \<open>The order of the stages\<close>

lemma encodedInOrder_iff:
  "encodedInOrder encoded ss \<longleftrightarrow>
     (\<forall>p<length ss. \<forall>b\<in>set (inputs (ss ! p)). available (encoded @ take p ss) b)"
proof (induction ss arbitrary: encoded)
  case Nil
  then show ?case by simp
next
  case (Cons s ss)
  have "(\<forall>p<length (s # ss). \<forall>b\<in>set (inputs ((s # ss) ! p)). available (encoded @ take p (s # ss)) b)
        \<longleftrightarrow> (\<forall>b\<in>set (inputs s). available encoded b) \<and>
            (\<forall>p<length ss. \<forall>b\<in>set (inputs (ss ! p)). available ((encoded @ [s]) @ take p ss) b)"
    (is "?L \<longleftrightarrow> ?A \<and> ?B")
  proof
    assume L: ?L
    have ?A using L [rule_format, of 0] by simp
    moreover have ?B
    proof (intro allI impI ballI)
      fix p b assume "p < length ss" "b \<in> set (inputs (ss ! p))"
      with L [rule_format, of "Suc p" b] show "available ((encoded @ [s]) @ take p ss) b" by simp
    qed
    ultimately show "?A \<and> ?B" ..
  next
    assume AB: "?A \<and> ?B"
    show ?L
    proof (intro allI impI ballI)
      fix p b assume p: "p < length (s # ss)" "b \<in> set (inputs ((s # ss) ! p))"
      show "available (encoded @ take p (s # ss)) b"
      proof (cases p)
        case 0
        with p AB show ?thesis by simp
      next
        case (Suc q)
        with p have "q < length ss" "b \<in> set (inputs (ss ! q))" by simp_all
        with AB have "available ((encoded @ [s]) @ take q ss) b" by blast
        with Suc show ?thesis by simp
      qed
    qed
  qed
  with Cons.IH [of "encoded @ [s]"] show ?case by (simp add: list_all_iff)
qed

lemma nth_in_take: "q < p \<Longrightarrow> p \<le> length xs \<Longrightarrow> xs ! q \<in> set (take p xs)"
  by (metis in_set_conv_nth length_take min.absorb2 nth_take)

lemma blockScans_sources:
  assumes "blockScans this = Some bs" "j < length bs"
  shows "ws_source (bs ! j) = BlockSumsOf (if j = 0 then sourceScan this else bs ! (j - 1))"
    and "Suc j < length bs \<Longrightarrow> ws_emitBlockSums (bs ! j)"
proof -
  from assms(1) obtain k where k:
    "bs = blockScanChain this (of_nat (src this) / 4) (actualWorkgroupLength this)
            (actualWorkgroupLength this) (BlockSumsOf (sourceScan this)) 0 k"
    "\<forall>j<k. of_int (actualWorkgroupLength this * actualWorkgroupLength this ^ j)
              < (of_nat (src this) / 4 :: rat)"
    unfolding blockScans_Some_iff by blast
  from assms(2) k(1) have j: "j < k" by simp
  note n = blockScanChain_nth [OF j, of this "of_nat (src this) / 4" "actualWorkgroupLength this"
      "actualWorkgroupLength this" "BlockSumsOf (sourceScan this)" 0, folded k(1)]
  show "ws_source (bs ! j) = BlockSumsOf (if j = 0 then sourceScan this else bs ! (j - 1))"
    by (subst n) simp
  assume "Suc j < length bs"
  with k(1) have "Suc j < k" by simp
  with k(2) have "of_int (actualWorkgroupLength this * actualWorkgroupLength this ^ Suc j)
              < (of_nat (src this) / 4 :: rat)" by blast
  then show "ws_emitBlockSums (bs ! j)"
    by (subst n) (simp add: not_le)
qed

lemma applyScans_wiring:
  assumes nf: "\<not> fitsInWorkGroup this" and as: "applyScans this = Some (Inr as)"
    and bs: "blockScans this = Some bs" and i: "i < length as"
  shows "ab_blockSums (as ! i) = (if i = 0 then PrefixScanOf (last bs) else ResultOf (as ! (i - 1)))"
    and "ab_partialScan (as ! i) =
           PrefixScanOf (if Suc i < length bs then bs ! (length bs - 2 - i) else sourceScan this)"
proof -
  let ?tp = "drop 1 (map PrefixScanOf (rev bs)) @ [PrefixScanOf (sourceScan this)]"
  from applyScans_cases [OF nf as] bs
  have a: "as = applyBlocksMap this ?tp (PrefixScanOf (last bs)) 0 (rev bs)"
    and l: "length as = length bs" and ne: "bs \<noteq> []" by auto
  from i l have i': "i < length (rev bs)" by simp
  note n = applyBlocksMap_nth [OF i', of this ?tp "PrefixScanOf (last bs)" 0, folded a]
  show "ab_blockSums (as ! i) = (if i = 0 then PrefixScanOf (last bs) else ResultOf (as ! (i - 1)))"
    by (subst n) simp
  have "arrayGet ?tp i =
          PrefixScanOf (if Suc i < length bs then bs ! (length bs - 2 - i) else sourceScan this)"
  proof (cases "Suc i < length bs")
    case True
    then have "i < length bs - Suc 0" by arith
    then have "?tp ! i = map PrefixScanOf (rev bs) ! Suc i"
      by (simp add: nth_append)
    also have "\<dots> = PrefixScanOf (rev bs ! Suc i)" using True by simp
    also have "rev bs ! Suc i = bs ! (length bs - Suc (Suc i))" using True by (simp add: rev_nth)
    finally show ?thesis using True
      by (simp add: arrayGet_def numeral_2_eq_2)
  next
    case False
    with i l have "Suc i = length bs" by simp
    then have "?tp ! i = PrefixScanOf (sourceScan this)"
      by (auto simp: nth_append)
    with False i l show ?thesis by (simp add: arrayGet_def)
  qed
  then show "ab_partialScan (as ! i) =
           PrefixScanOf (if Suc i < length bs then bs ! (length bs - 2 - i) else sourceScan this)"
    by (subst n) simp
qed

lemma shaders_cases:
  assumes "shaders this = Some (Inr ss)"
  shows "\<exists>bs as. blockScans this = Some bs \<and> applyScans this = Some (Inr as) \<and>
           length as = length bs \<and>
           ss = Scan (sourceScan this) # map Scan bs @ map Apply as"
proof -
  from assms obtain bs as where b: "blockScans this = Some bs"
    and a: "applyScans this = Some (Inr as)"
    and s: "ss = Scan (sourceScan this) # map Scan bs @ map Apply as"
    by (auto simp: shaders_def split: option.splits sum.splits)
  have "length as = length bs"
  proof (cases "fitsInWorkGroup this")
    case True
    with blockScans_fits [OF True] a b show ?thesis by (simp add: applyScans_def)
  next
    case False
    from applyScans_cases [OF False a] b show ?thesis by simp
  qed
  with a b s show ?thesis by blast
qed

lemma stage_graph_in_order:
  assumes b: "blockScans this = Some bs" and a: "applyScans this = Some (Inr as)"
    and l: "length as = length bs"
  shows "encodedInOrder [] (Scan (sourceScan this) # map Scan bs @ map Apply as)"
proof -
  let ?ss = "Scan (sourceScan this) # map Scan bs @ map Apply as"
  let ?k = "length bs"
  have n0: "?ss ! 0 = Scan (sourceScan this)" by simp
  have nscan: "\<And>j. j < ?k \<Longrightarrow> ?ss ! Suc j = Scan (bs ! j)" by (simp add: nth_append)
  have napply: "\<And>i. i < length as \<Longrightarrow> ?ss ! Suc (?k + i) = Apply (as ! i)"
    by (simp add: nth_append)
  have len: "length ?ss = Suc (?k + length as)" by simp
  have in_src: "\<And>p. 0 < p \<Longrightarrow> p \<le> length ?ss \<Longrightarrow> Scan (sourceScan this) \<in> set (take p ?ss)"
    using nth_in_take [of 0 _ ?ss] by simp
  have in_scan: "\<And>p j. j < ?k \<Longrightarrow> Suc j < p \<Longrightarrow> p \<le> length ?ss \<Longrightarrow> Scan (bs ! j) \<in> set (take p ?ss)"
    using nth_in_take [of "Suc _" _ ?ss] nscan by metis
  have in_apply: "\<And>p i. i < length as \<Longrightarrow> Suc (?k + i) < p \<Longrightarrow> p \<le> length ?ss
                 \<Longrightarrow> Apply (as ! i) \<in> set (take p ?ss)"
    using nth_in_take [of "Suc (?k + _)" _ ?ss] napply by metis
  have "\<forall>p<length ?ss. \<forall>x\<in>set (inputs (?ss ! p)). available ([] @ take p ?ss) x"
  proof (intro allI impI ballI)
    fix p x assume p: "p < length ?ss" and x: "x \<in> set (inputs (?ss ! p))"
    consider (source) "p = 0" | (scan) j where "p = Suc j" "j < ?k"
      | (appl) i where "p = Suc (?k + i)" "i < length as"
    proof (cases p)
      case 0 then show ?thesis using that by simp
    next
      case (Suc q)
      show ?thesis
      proof (cases "q < ?k")
        case True with Suc that show ?thesis by simp
      next
        case False
        with Suc p have "p = Suc (?k + (q - ?k))" "q - ?k < length as" by simp_all
        with that show ?thesis by blast
      qed
    qed
    then show "available ([] @ take p ?ss) x"
    proof cases
      case source
      with x show ?thesis by (simp add: inputs_def sourceScan_def available_def)
    next
      case (scan j)
      from x scan nscan [OF scan(2)] have x': "x = ws_source (bs ! j)"
        by (simp add: inputs_def)
      show ?thesis
      proof (cases j)
        case 0
        with x' blockScans_sources(1) [OF b scan(2)] in_src [of p] scan p
        show ?thesis by (simp add: available_def sourceScan_def)
      next
        case (Suc j')
        with scan have j': "j' < ?k" "Suc j' < ?k" by simp_all
        from blockScans_sources(2) [OF b j'(1) j'(2)] have "ws_emitBlockSums (bs ! j')" .
        moreover have "Scan (bs ! j') \<in> set (take p ?ss)"
          by (rule in_scan) (use scan Suc p j' in simp_all)
        ultimately show ?thesis
          using x' blockScans_sources(1) [OF b scan(2)] Suc by (simp add: available_def)
      qed
    next
      case (appl i)
      have nf: "\<not> fitsInWorkGroup this"
      proof
        assume "fitsInWorkGroup this"
        with a appl(2) show False by (simp add: applyScans_def)
      qed
      from b nf have ne: "bs \<noteq> []" using blockScans_nonempty by blast
      note w = applyScans_wiring [OF nf a b appl(2)]
      from x appl napply [OF appl(2)]
      have "x = ab_partialScan (as ! i) \<or> x = ab_blockSums (as ! i)"
        by (simp add: inputs_def)
      then show ?thesis
      proof
        assume "x = ab_partialScan (as ! i)"
        with w(2) have x': "x = PrefixScanOf (if Suc i < ?k then bs ! (?k - 2 - i)
                                               else sourceScan this)" by simp
        show ?thesis
        proof (cases "Suc i < ?k")
          case True
          have "Scan (bs ! (?k - 2 - i)) \<in> set (take p ?ss)"
            by (rule in_scan) (use True appl p l in simp_all)
          with x' True show ?thesis by (simp add: available_def)
        next
          case False
          with x' in_src [of p] appl p show ?thesis by (simp add: available_def)
        qed
      next
        assume "x = ab_blockSums (as ! i)"
        with w(1) have x': "x = (if i = 0 then PrefixScanOf (last bs) else ResultOf (as ! (i - 1)))"
          by simp
        show ?thesis
        proof (cases i)
          case 0
          have "last bs = bs ! (?k - 1)" using ne by (rule last_conv_nth)
          moreover have "Scan (bs ! (?k - 1)) \<in> set (take p ?ss)"
            by (rule in_scan) (use appl p ne in simp_all)
          ultimately show ?thesis using x' 0 by (simp add: available_def)
        next
          case (Suc i')
          have "Apply (as ! i') \<in> set (take p ?ss)"
            by (rule in_apply) (use appl p Suc in simp_all)
          with x' Suc show ?thesis by (simp add: available_def)
        qed
      qed
    qed
  qed
  then show ?thesis unfolding encodedInOrder_iff .
qed

text \<open>
  Claim C5. \<open>commands\<close> encodes the stages of \<open>shaders\<close> in their order: first the source
  Block Scan Stage, then the block-sum chain stages from the finest to the coarsest (each
  reads the block sums of the one before), then the Apply-Block stages from the top down
  (the first reads the coarsest scan, each later one the result of the one before, and each
  corrects the partial scan of the next finer level). The list is in dependency order: no
  stage is encoded before the stages that produce its inputs. The list exists whenever the
  actual workgroup length is at least 2.
\<close>

theorem commands_dependency_order:
  "(\<forall>ss. shaders this = Some (Inr ss) \<longrightarrow>
      commands this enc = Some (Inr (enc @ ss)) \<and>
      (\<exists>bs as. blockScans this = Some bs \<and> applyScans this = Some (Inr as) \<and>
         ss = Scan (sourceScan this) # map Scan bs @ map Apply as \<and>
         (\<forall>j<length bs.
            ws_source (bs ! j) = BlockSumsOf (if j = 0 then sourceScan this else bs ! (j - 1))) \<and>
         (\<forall>i<length as.
            ab_blockSums (as ! i)
              = (if i = 0 then PrefixScanOf (last bs) else ResultOf (as ! (i - 1))) \<and>
            ab_partialScan (as ! i)
              = PrefixScanOf (if Suc i < length bs then bs ! (length bs - 2 - i)
                              else sourceScan this))) \<and>
      encodedInOrder [] ss) \<and>
   (2 \<le> actualWorkgroupLength this \<longrightarrow> (\<exists>ss. shaders this = Some (Inr ss)))"
proof (intro conjI allI impI)
  fix ss assume s: "shaders this = Some (Inr ss)"
  then show "commands this enc = Some (Inr (enc @ ss))"
    by (simp add: commands_def foldl_snoc)
  from shaders_cases [OF s] obtain bs as where b: "blockScans this = Some bs"
    and a: "applyScans this = Some (Inr as)" and l: "length as = length bs"
    and ss: "ss = Scan (sourceScan this) # map Scan bs @ map Apply as"
    by blast
  from stage_graph_in_order [OF b a l] ss show "encodedInOrder [] ss" by simp
  have chain: "\<forall>j<length bs.
            ws_source (bs ! j) = BlockSumsOf (if j = 0 then sourceScan this else bs ! (j - 1))"
    using blockScans_sources(1) [OF b] by blast
  have appl: "\<forall>i<length as.
            ab_blockSums (as ! i)
              = (if i = 0 then PrefixScanOf (last bs) else ResultOf (as ! (i - 1))) \<and>
            ab_partialScan (as ! i)
              = PrefixScanOf (if Suc i < length bs then bs ! (length bs - 2 - i)
                              else sourceScan this)"
  proof (intro allI impI)
    fix i assume i: "i < length as"
    have nf: "\<not> fitsInWorkGroup this"
    proof
      assume "fitsInWorkGroup this"
      with a i show False by (simp add: applyScans_def)
    qed
    from applyScans_wiring [OF nf a b i]
    show "ab_blockSums (as ! i)
              = (if i = 0 then PrefixScanOf (last bs) else ResultOf (as ! (i - 1))) \<and>
            ab_partialScan (as ! i)
              = PrefixScanOf (if Suc i < length bs then bs ! (length bs - 2 - i)
                              else sourceScan this)" by simp
  qed
  from b a ss chain appl
  show "\<exists>bs as. blockScans this = Some bs \<and> applyScans this = Some (Inr as) \<and>
         ss = Scan (sourceScan this) # map Scan bs @ map Apply as \<and>
         (\<forall>j<length bs.
            ws_source (bs ! j) = BlockSumsOf (if j = 0 then sourceScan this else bs ! (j - 1))) \<and>
         (\<forall>i<length as.
            ab_blockSums (as ! i)
              = (if i = 0 then PrefixScanOf (last bs) else ResultOf (as ! (i - 1))) \<and>
            ab_partialScan (as ! i)
              = PrefixScanOf (if Suc i < length bs then bs ! (length bs - 2 - i)
                              else sourceScan this))"
    by blast
next
  assume L: "2 \<le> actualWorkgroupLength this"
  then obtain bs where b: "blockScans this = Some bs" using blockScans_total by blast
  obtain as where "applyScans this = Some (Inr as)"
  proof (cases "fitsInWorkGroup this")
    case True then show ?thesis using that by (simp add: applyScans_def)
  next
    case False from applyScans_large [OF False b] that show ?thesis by blast
  qed
  with b show "\<exists>ss. shaders this = Some (Inr ss)" by (simp add: shaders_def)
qed

theorem commands_dependency_order_witness:
  "shaders cfgCube = Some (Inr [Scan cubeSource, Scan cubeScan0, Scan cubeScan1,
                                Apply cubeApply0, Apply cubeApply1]) \<and>
   commands cfgCube [] = Some (Inr [Scan cubeSource, Scan cubeScan0, Scan cubeScan1,
                                Apply cubeApply0, Apply cubeApply1]) \<and>
   encodedInOrder [] [Scan cubeSource, Scan cubeScan0, Scan cubeScan1,
                      Apply cubeApply0, Apply cubeApply1]"
proof -
  have s: "shaders cfgCube = Some (Inr [Scan cubeSource, Scan cubeScan0, Scan cubeScan1,
                                Apply cubeApply0, Apply cubeApply1])"
    by (simp add: shaders_def cfgCube_blockScans cfgCube_applyScans cfgCube_sourceScan)
  from commands_dependency_order [where this = cfgCube and enc = "[]"] s
  show ?thesis by simp
qed

section \<open>The whole pipeline against the sequential scan\<close>

subsection \<open>Sequential scans and blocks\<close>

lemma scanFrom_length [simp]: "length (scanFrom f a xs) = length xs"
  by (induction xs arbitrary: a) simp_all

lemma inclusiveScan_length [simp]: "length (inclusiveScan f xs) = length xs"
  by (simp add: inclusiveScan_def split: list.split)





lemma blocks_Nil [simp]: "blocks L [] = []"
  by (simp add: blocks.simps)






subsection \<open>One level: a block scan corrected by the scanned block sums\<close>




lemma blockSumsStage_Nil [simp]: "blockSumsStage t L [] = []"
  by (simp add: blockSumsStage_def)


lemma blockSumsStage_length [simp]: "length (blockSumsStage t L xs) = length (blocks L xs)"
  by (simp add: blockSumsStage_def)






subsection \<open>All levels\<close>












end
